theory Spec2Isabelle
  imports Main
begin

section \<open>Data model\<close>

text \<open>
  The user service keeps two MongoDB collections, \<open>users\<close> and \<open>counters\<close>
  (\<^verbatim>\<open>utils/collections.py\<close>), and reaches them only through
  \<^verbatim>\<open>UserRepository\<close> (\<^verbatim>\<open>repositories/user_repository.py\<close>).
  Every storage call the repository makes is modelled as a function on an explicit
  database value; an exception is the \<open>Inl\<close> branch of the result, and the database
  is returned in both branches, because a call that raises keeps the writes made before it.
\<close>

datatype error = DuplicateKeyError | HTTPException nat string

text \<open>
  Modelled from the spec: the module \<^verbatim>\<open>models/user.py\<close> (\<^verbatim>\<open>UserCreate\<close>,
  \<^verbatim>\<open>UserDB\<close>, \<^verbatim>\<open>UserOut\<close>, \<^verbatim>\<open>generate_short_hex_id\<close>) is not among the sources.
  A user has an \<open>id\<close>, a \<open>user_index\<close> and the profile attributes supplied by the
  client, which stay opaque (the type parameter). The same record stands for the dumped
  \<^verbatim>\<open>UserDB\<close> document and for \<^verbatim>\<open>UserOut\<close>. The random identifiers that
  \<^verbatim>\<open>generate_short_hex_id\<close> draws are inputs of the operations.
\<close>

record 'p user =
  user_id :: string
  user_index :: int
  profile :: 'p

text \<open>A stored document is the inserted document plus the surrogate \<open>_id\<close> of the storage.\<close>

record 'p stored =
  oid :: nat
  doc :: "'p user"

text \<open>A counter document, without its \<open>_id\<close>: field names to integer values.\<close>

type_synonym counter_doc = "string \<rightharpoonup> int"

text \<open>The two unique indexes of \<open>users\<close>, by the names \<^verbatim>\<open>_initialize\<close> gives them.\<close>

datatype index = uniq_id | uniq_user_index

text \<open>
  The storage calls issued so far are kept as a trace beside the contents; an insert is
  recorded with the \<open>id\<close> and the \<open>user_index\<close> of the document it carries.
\<close>

datatype call = CreateIndex index | FindOneAndUpdate | UpdateOne | InsertOne string int | FindOne

record 'p database =
  users :: "'p stored list"
  counters :: "string \<rightharpoonup> counter_doc"
  indexes :: "index set"
  calls :: "call list"

record 'p UserRepository =
  db :: "'p database"
  initialized :: bool

definition empty_database :: "'p database" where
  "empty_database = \<lparr>users = [], counters = Map.empty, indexes = {}, calls = []\<rparr>"

text \<open>\<^verbatim>\<open>UserRepository.__init__\<close>: a new instance over a database handle.\<close>

definition new_repository :: "'p database \<Rightarrow> 'p UserRepository" where
  "new_repository d = \<lparr>db = d, initialized = False\<rparr>"

section \<open>Storage operations\<close>

definition ids :: "'p stored list \<Rightarrow> string list" where
  "ids ds = map (\<lambda>s. user_id (doc s)) ds"

definition user_indexes :: "'p stored list \<Rightarrow> int list" where
  "user_indexes ds = map (\<lambda>s. user_index (doc s)) ds"

text \<open>Whether the documents of a collection satisfy a unique index.\<close>

definition index_holds :: "index \<Rightarrow> 'p stored list \<Rightarrow> bool" where
  "index_holds ix ds =
     (case ix of uniq_id \<Rightarrow> distinct (ids ds)
               | uniq_user_index \<Rightarrow> distinct (user_indexes ds))"

text \<open>Whether a new document repeats a key of a unique index.\<close>

definition duplicate_key :: "index \<Rightarrow> 'p user \<Rightarrow> 'p stored list \<Rightarrow> bool" where
  "duplicate_key ix u ds =
     (case ix of uniq_id \<Rightarrow> user_id u \<in> set (ids ds)
               | uniq_user_index \<Rightarrow> user_index u \<in> set (user_indexes ds))"

text \<open>
  \<^verbatim>\<open>create_index(key, unique=True, name=...)\<close>: nothing to do when the index exists;
  otherwise the index is built, which fails with a duplicate-key error when the
  collection already holds two documents with the same key.
\<close>

definition create_index :: "index \<Rightarrow> 'p database \<Rightarrow> (error + unit) \<times> 'p database" where
  "create_index ix d =
     (let d' = d\<lparr>calls := calls d @ [CreateIndex ix]\<rparr>
      in if ix \<in> indexes d then (Inr (), d')
         else if index_holds ix (users d) then (Inr (), d'\<lparr>indexes := insert ix (indexes d)\<rparr>)
         else (Inl DuplicateKeyError, d'))"

text \<open>
  \<^verbatim>\<open>find_one_and_update({"_id": key}, {"$inc": {fld: n}}, upsert=True,
  return_document=ReturnDocument.AFTER)\<close> on \<open>counters\<close>: one atomic step that adds
  \<open>n\<close> to the field (a missing field or document counts as absent, and the field is set
  to \<open>n\<close>) and returns the document after the update.
\<close>

definition find_one_and_update ::
  "string \<Rightarrow> string \<Rightarrow> int \<Rightarrow> 'p database \<Rightarrow> counter_doc option \<times> 'p database" where
  "find_one_and_update key fld n d =
     (let old = (case counters d key of None \<Rightarrow> Map.empty | Some c \<Rightarrow> c);
          new = old(fld \<mapsto> (case old fld of None \<Rightarrow> n | Some v \<Rightarrow> v + n))
      in (Some new, d\<lparr>counters := (counters d)(key \<mapsto> new),
                      calls := calls d @ [FindOneAndUpdate]\<rparr>))"

text \<open>\<^verbatim>\<open>update_one({"_id": key}, {"$set": {fld: v}}, upsert=True)\<close> on \<open>counters\<close>.\<close>

definition update_one :: "string \<Rightarrow> string \<Rightarrow> int \<Rightarrow> 'p database \<Rightarrow> 'p database" where
  "update_one key fld v d =
     (let old = (case counters d key of None \<Rightarrow> Map.empty | Some c \<Rightarrow> c)
      in d\<lparr>counters := (counters d)(key \<mapsto> old(fld \<mapsto> v)),
           calls := calls d @ [UpdateOne]\<rparr>)"

text \<open>
  \<^verbatim>\<open>insert_one(document)\<close> on \<open>users\<close>: refused with a duplicate-key error when
  an existing unique index would be violated, otherwise the document is appended under a
  fresh surrogate \<open>_id\<close>.
\<close>

definition insert_one :: "'p user \<Rightarrow> 'p database \<Rightarrow> (error + unit) \<times> 'p database" where
  "insert_one u d =
     (let d' = d\<lparr>calls := calls d @ [InsertOne (user_id u) (user_index u)]\<rparr>
      in if (uniq_id \<in> indexes d \<and> duplicate_key uniq_id u (users d))
            \<or> (uniq_user_index \<in> indexes d \<and> duplicate_key uniq_user_index u (users d))
         then (Inl DuplicateKeyError, d')
         else (Inr (), d'\<lparr>users := users d @ [\<lparr>oid = length (users d), doc = u\<rparr>]\<rparr>))"

text \<open>
  \<^verbatim>\<open>find_one({"id": user_id}, {"_id": 0})\<close> on \<open>users\<close>: the first document with that
  \<open>id\<close>, with the surrogate \<open>_id\<close> projected away.
\<close>

definition find_one :: "string \<Rightarrow> 'p database \<Rightarrow> 'p user option \<times> 'p database" where
  "find_one uid d =
     (map_option doc (find (\<lambda>s. user_id (doc s) = uid) (users d)),
      d\<lparr>calls := calls d @ [FindOne]\<rparr>)"

section \<open>The repository\<close>

text \<open>\<^verbatim>\<open>UserRepository._initialize\<close>.\<close>

definition initialize :: "'p UserRepository \<Rightarrow> (error + unit) \<times> 'p UserRepository" where
  "initialize r =
     (if initialized r then (Inr (), r)
      else case create_index uniq_id (db r) of
             (Inl e, d1) \<Rightarrow> (Inl e, r\<lparr>db := d1\<rparr>)
           | (Inr _, d1) \<Rightarrow>
               (case create_index uniq_user_index d1 of
                  (Inl e, d2) \<Rightarrow> (Inl e, r\<lparr>db := d2\<rparr>)
                | (Inr _, d2) \<Rightarrow> (Inr (), r\<lparr>db := d2, initialized := True\<rparr>)))"

text \<open>\<^verbatim>\<open>UserRepository._get_next_user_index\<close>.\<close>

definition get_next_user_index :: "'p UserRepository \<Rightarrow> int \<times> 'p UserRepository" where
  "get_next_user_index r =
     (let (result, d1) = find_one_and_update ''user_index'' ''seq'' 1 (db r);
          seq = (case result of
                   None \<Rightarrow> 1
                 | Some c \<Rightarrow> (case c ''seq'' of None \<Rightarrow> 1 | Some v \<Rightarrow> v));
          d2 = (if seq = 1 then update_one ''user_index'' ''seq'' 1 d1 else d1)
      in (seq, r\<lparr>db := d2\<rparr>))"

text \<open>
  \<^verbatim>\<open>UserRepository.add_user\<close>. \<open>id1\<close> is the identifier drawn when the
  \<^verbatim>\<open>UserDB\<close> object is built, \<open>id2\<close> the one drawn in the handler of the
  duplicate-key error.
\<close>

definition add_user ::
  "'p UserRepository \<Rightarrow> 'p \<Rightarrow> string \<Rightarrow> string
     \<Rightarrow> (error + 'p user) \<times> 'p UserRepository" where
  "add_user r payload id1 id2 =
     (case initialize r of
        (Inl e, r1) \<Rightarrow> (Inl e, r1)
      | (Inr _, r1) \<Rightarrow>
          (let (n, r2) = get_next_user_index r1;
               user_db = \<lparr>user_id = id1, user_index = n, profile = payload\<rparr>
           in case insert_one user_db (db r2) of
                (Inr _, d3) \<Rightarrow> (Inr user_db, r2\<lparr>db := d3\<rparr>)
              | (Inl (HTTPException c m), d3) \<Rightarrow> (Inl (HTTPException c m), r2\<lparr>db := d3\<rparr>)
              | (Inl DuplicateKeyError, d3) \<Rightarrow>
                  (let user_db' = user_db\<lparr>user_id := id2\<rparr>
                   in case insert_one user_db' d3 of
                        (Inr _, d4) \<Rightarrow> (Inr user_db', r2\<lparr>db := d4\<rparr>)
                      | (Inl e, d4) \<Rightarrow> (Inl e, r2\<lparr>db := d4\<rparr>))))"

text \<open>\<^verbatim>\<open>UserRepository.get_user_by_id\<close>.\<close>

definition get_user_by_id ::
  "'p UserRepository \<Rightarrow> string \<Rightarrow> (error + 'p user option) \<times> 'p UserRepository" where
  "get_user_by_id r uid =
     (case initialize r of
        (Inl e, r1) \<Rightarrow> (Inl e, r1)
      | (Inr _, r1) \<Rightarrow>
          (let (found, d2) = find_one uid (db r1)
           in case found of
                None \<Rightarrow> (Inr None, r1\<lparr>db := d2\<rparr>)
              | Some u \<Rightarrow> (Inr (Some u), r1\<lparr>db := d2\<rparr>)))"

section \<open>The router\<close>

text \<open>
  \<^verbatim>\<open>get_user\<close> of \<^verbatim>\<open>routers/user_router.py\<close>: a repository is built for the
  request (\<^verbatim>\<open>get_user_repository\<close>), and an absent user becomes the 404 response.
\<close>

definition get_user :: "'p database \<Rightarrow> string \<Rightarrow> (error + 'p user) \<times> 'p database" where
  "get_user d uid =
     (let (res, repo) = get_user_by_id (new_repository d) uid
      in case res of
           Inl e \<Rightarrow> (Inl e, db repo)
         | Inr None \<Rightarrow> (Inl (HTTPException 404 ''User not found''), db repo)
         | Inr (Some u) \<Rightarrow> (Inr u, db repo))"

text \<open>\<^verbatim>\<open>create_user\<close> of the router.\<close>

definition create_user ::
  "'p database \<Rightarrow> 'p \<Rightarrow> string \<Rightarrow> string \<Rightarrow> (error + 'p user) \<times> 'p database" where
  "create_user d payload id1 id2 =
     (let (res, repo) = add_user (new_repository d) payload id1 id2 in (res, db repo))"

section \<open>Observations\<close>

text \<open>The value the counter \<open>user_index\<close> holds: its \<open>seq\<close>, or 0 before the first increment.\<close>

definition seq_of :: "'p database \<Rightarrow> int" where
  "seq_of d =
     (case counters d ''user_index'' of
        None \<Rightarrow> 0
      | Some c \<Rightarrow> (case c ''seq'' of None \<Rightarrow> 0 | Some v \<Rightarrow> v))"

text \<open>The counter document after one increment.\<close>

definition incremented :: "'p database \<Rightarrow> counter_doc" where
  "incremented d =
     (case counters d ''user_index'' of
        None \<Rightarrow> [''seq'' \<mapsto> 1]
      | Some c \<Rightarrow> c(''seq'' \<mapsto> seq_of d + 1))"

text \<open>The storage calls issued between two states of the database.\<close>

definition new_calls :: "'p database \<Rightarrow> 'p database \<Rightarrow> call list" where
  "new_calls d d' = drop (length (calls d)) (calls d')"

fun is_create_index :: "call \<Rightarrow> bool" where
  "is_create_index (CreateIndex ix) = True"
| "is_create_index c = False"

fun is_insert :: "call \<Rightarrow> bool" where
  "is_insert (InsertOne i n) = True"
| "is_insert c = False"

section \<open>Consistent states\<close>

text \<open>
  The stored users have pairwise different \<open>id\<close>s and pairwise different
  \<open>user_index\<close>es.
\<close>

definition unique_keys :: "'p database \<Rightarrow> bool" where
  "unique_keys d = (distinct (ids (users d)) \<and> distinct (user_indexes (users d)))"

text \<open>An instance whose flag is set has both indexes in the database.\<close>

definition indexes_ensured :: "'p UserRepository \<Rightarrow> bool" where
  "indexes_ensured r =
     (initialized r \<longrightarrow> uniq_id \<in> indexes (db r) \<and> uniq_user_index \<in> indexes (db r))"

text \<open>
  The states the service reaches from an empty database: the two properties above. They
  hold of a new repository over an empty database and every operation keeps them
  (lemmas \<open>consistent_empty\<close>, \<open>add_user_consistent\<close>, \<open>get_user_by_id_consistent\<close>).
\<close>

definition consistent :: "'p UserRepository \<Rightarrow> bool" where
  "consistent r = (unique_keys (db r) \<and> indexes_ensured r)"

text \<open>
  What a successful \<^verbatim>\<open>_initialize\<close> leaves: the instance itself when its flag was
  set, otherwise both indexes created and the flag set.
\<close>

definition with_indexes :: "'p UserRepository \<Rightarrow> 'p UserRepository" where
  "with_indexes r =
     (if initialized r then r
      else r\<lparr>db := (db r)\<lparr>indexes := insert uniq_user_index (insert uniq_id (indexes (db r))),
                           calls := calls (db r) @ [CreateIndex uniq_id, CreateIndex uniq_user_index]\<rparr>,
             initialized := True\<rparr>)"

text \<open>A document as \<^verbatim>\<open>insert_one\<close> stores it at the end of \<open>users\<close>.\<close>

definition appended :: "'p user \<Rightarrow> 'p database \<Rightarrow> 'p database" where
  "appended u d = d\<lparr>users := users d @ [\<lparr>oid = length (users d), doc = u\<rparr>]\<rparr>"

definition called :: "call list \<Rightarrow> 'p database \<Rightarrow> 'p database" where
  "called cs d = d\<lparr>calls := calls d @ cs\<rparr>"

section \<open>Sequences of operations\<close>

text \<open>
  A sequence of create operations on one repository, each with its payload and the two
  identifiers drawn for it; an operation that raises does not stop the following ones.
\<close>

fun add_users ::
  "'p UserRepository \<Rightarrow> ('p \<times> string \<times> string) list
     \<Rightarrow> (error + 'p user) list \<times> 'p UserRepository" where
  "add_users r [] = ([], r)"
| "add_users r ((payload, id1, id2) # reqs) =
     (let (res, r1) = add_user r payload id1 id2;
          (outs, r2) = add_users r1 reqs
      in (res # outs, r2))"

text \<open>The users that a list of outcomes returned.\<close>

fun created :: "(error + 'p user) list \<Rightarrow> 'p user list" where
  "created [] = []"
| "created (Inl e # outs) = created outs"
| "created (Inr u # outs) = u # created outs"

text \<open>\<^verbatim>\<open>_initialize\<close> called \<open>n\<close> times in a row on one instance.\<close>

fun initialize_times :: "nat \<Rightarrow> 'p UserRepository \<Rightarrow> (error + unit) \<times> 'p UserRepository" where
  "initialize_times 0 r = (Inr (), r)"
| "initialize_times (Suc n) r =
     (case initialize r of
        (Inl e, r1) \<Rightarrow> (Inl e, r1)
      | (Inr _, r1) \<Rightarrow> initialize_times n r1)"

section \<open>The counter without the corrective write\<close>

text \<open>
  The sequence assignment as the specification describes its required part: the atomic
  find-and-increment alone, without the write that follows a returned value of 1.
\<close>

definition get_next_user_index_plain :: "'p UserRepository \<Rightarrow> int \<times> 'p UserRepository" where
  "get_next_user_index_plain r =
     (let (result, d1) = find_one_and_update ''user_index'' ''seq'' 1 (db r);
          seq = (case result of
                   None \<Rightarrow> 1
                 | Some c \<Rightarrow> (case c ''seq'' of None \<Rightarrow> 1 | Some v \<Rightarrow> v))
      in (seq, r\<lparr>db := d1\<rparr>))"

section \<open>The awaits of a create\<close>

text \<open>
  Every storage call is awaited, and at an await other requests run. The parts of
  \<^verbatim>\<open>add_user\<close> between its awaits, as the source has them:
  the find-and-increment with the reading of \<open>seq\<close> (lines 39 to 45 of
  \<^verbatim>\<open>user_repository.py\<close>), the corrective write (lines 46 to 49) and the inserts
  (lines 55 to 68).
\<close>

definition increment_user_index :: "'p UserRepository \<Rightarrow> int \<times> 'p UserRepository" where
  "increment_user_index r =
     (let (result, d1) = find_one_and_update ''user_index'' ''seq'' 1 (db r);
          seq = (case result of
                   None \<Rightarrow> 1
                 | Some c \<Rightarrow> (case c ''seq'' of None \<Rightarrow> 1 | Some v \<Rightarrow> v))
      in (seq, r\<lparr>db := d1\<rparr>))"

definition correct_user_index :: "int \<Rightarrow> 'p UserRepository \<Rightarrow> int \<times> 'p UserRepository" where
  "correct_user_index seq r =
     (seq, r\<lparr>db := (if seq = 1 then update_one ''user_index'' ''seq'' 1 (db r) else db r)\<rparr>)"

definition insert_user ::
  "'p UserRepository \<Rightarrow> 'p \<Rightarrow> string \<Rightarrow> string \<Rightarrow> int
     \<Rightarrow> (error + 'p user) \<times> 'p UserRepository" where
  "insert_user r payload id1 id2 n =
     (let user_db = \<lparr>user_id = id1, user_index = n, profile = payload\<rparr>
      in case insert_one user_db (db r) of
           (Inr _, d3) \<Rightarrow> (Inr user_db, r\<lparr>db := d3\<rparr>)
         | (Inl (HTTPException c m), d3) \<Rightarrow> (Inl (HTTPException c m), r\<lparr>db := d3\<rparr>)
         | (Inl DuplicateKeyError, d3) \<Rightarrow>
             (let user_db' = user_db\<lparr>user_id := id2\<rparr>
              in case insert_one user_db' d3 of
                   (Inr _, d4) \<Rightarrow> (Inr user_db', r\<lparr>db := d4\<rparr>)
                 | (Inl e, d4) \<Rightarrow> (Inl e, r\<lparr>db := d4\<rparr>)))"

text \<open>
  An instance that continues after an await works on the database as the other requests
  have left it: all instances share the one database handle.
\<close>

definition resume :: "'p UserRepository \<Rightarrow> 'p database \<Rightarrow> 'p UserRepository" where
  "resume r d = r\<lparr>db := d\<rparr>"

text \<open>
  Three create requests, each on its own instance as the router builds it. The first is
  suspended at the await of its find-and-increment; the second runs from start to end
  meanwhile; then the first continues with its corrective write and its inserts, and
  the third runs from start to end. The outcomes of the three are returned in the order
  of the requests.
\<close>

fun interleaved_creates ::
  "'p database \<Rightarrow> 'p \<times> string \<times> string \<Rightarrow> 'p \<times> string \<times> string \<Rightarrow> 'p \<times> string \<times> string
     \<Rightarrow> ((error + 'p user) \<times> (error + 'p user) \<times> (error + 'p user)) \<times> 'p database" where
  "interleaved_creates d (pa, a1, a2) (pb, b1, b2) (pc, c1, c2) =
     (case initialize (new_repository d) of
        (Inl e, ra) \<Rightarrow>
          (let (out_b, rb) = add_user (new_repository (db ra)) pb b1 b2;
               (out_c, rc) = add_user (new_repository (db rb)) pc c1 c2
           in ((Inl e, out_b, out_c), db rc))
      | (Inr _, ra1) \<Rightarrow>
          (let (seq, ra2) = increment_user_index ra1;
               (out_b, rb) = add_user (new_repository (db ra2)) pb b1 b2;
               (n, ra3) = correct_user_index seq (resume ra2 (db rb));
               (out_a, ra4) = insert_user ra3 pa a1 a2 n;
               (out_c, rc) = add_user (new_repository (db ra4)) pc c1 c2
           in ((out_a, out_b, out_c), db rc)))"

section \<open>Initialization\<close>

lemma initialize_set: "initialized r \<Longrightarrow> initialize r = (Inr (), r)"
  by (simp add: initialize_def)

lemma initialize_frame:
  "users (db (snd (initialize r))) = users (db r)"
  "counters (db (snd (initialize r))) = counters (db r)"
  by (simp_all add: initialize_def create_index_def Let_def)

lemma initialize_ok:
  assumes "unique_keys (db r)"
  shows "initialize r = (Inr (), with_indexes r)"
proof (cases "initialized r")
  case True
  then show ?thesis by (simp add: initialize_def with_indexes_def)
next
  case False
  have "index_holds uniq_id (users (db r))" "index_holds uniq_user_index (users (db r))"
    using assms by (simp_all add: unique_keys_def index_holds_def)
  with False show ?thesis
    by (simp add: initialize_def with_indexes_def create_index_def Let_def insert_absorb)
qed

lemma with_indexes_frame:
  "users (db (with_indexes r)) = users (db r)"
  "counters (db (with_indexes r)) = counters (db r)"
  "seq_of (db (with_indexes r)) = seq_of (db r)"
  by (simp_all add: with_indexes_def seq_of_def)

lemma with_indexes_present:
  assumes "indexes_ensured r"
  shows "initialized (with_indexes r)"
    and "uniq_id \<in> indexes (db (with_indexes r))"
    and "uniq_user_index \<in> indexes (db (with_indexes r))"
  using assms by (simp_all add: with_indexes_def indexes_ensured_def)

lemma with_indexes_calls:
  "calls (db (with_indexes r)) =
     calls (db r) @ (if initialized r then [] else [CreateIndex uniq_id, CreateIndex uniq_user_index])"
  by (simp add: with_indexes_def)

section \<open>The counter\<close>

lemma get_next_user_index_value: "fst (get_next_user_index r) = seq_of (db r) + 1"
  by (simp add: get_next_user_index_def find_one_and_update_def update_one_def seq_of_def
      Let_def split: option.splits)

lemma get_next_user_index_counters:
  "counters (db (snd (get_next_user_index r))) =
     (counters (db r))(''user_index'' \<mapsto> incremented (db r))"
  by (auto simp: get_next_user_index_def find_one_and_update_def update_one_def seq_of_def
      incremented_def Let_def split: option.splits)

lemma get_next_user_index_frame:
  "users (db (snd (get_next_user_index r))) = users (db r)"
  "indexes (db (snd (get_next_user_index r))) = indexes (db r)"
  "initialized (snd (get_next_user_index r)) = initialized r"
  by (simp_all add: get_next_user_index_def find_one_and_update_def update_one_def Let_def
      split: option.splits)

lemma get_next_user_index_calls:
  "calls (db (snd (get_next_user_index r))) =
     calls (db r) @ FindOneAndUpdate # (if seq_of (db r) + 1 = 1 then [UpdateOne] else [])"
  by (simp add: get_next_user_index_def find_one_and_update_def update_one_def seq_of_def
      Let_def split: option.splits)

lemma get_next_user_index_seq:
  "seq_of (db (snd (get_next_user_index r))) = seq_of (db r) + 1"
  by (simp add: get_next_user_index_counters seq_of_def incremented_def split: option.splits)

text \<open>
  C2: \<^verbatim>\<open>_get_next_user_index\<close> issues exactly one find-and-increment on the counter
  document \<open>user_index\<close>; the \<open>seq\<close> of that document grows by 1, an absent document is
  created with \<open>seq = 1\<close>, and the value returned is the \<open>seq\<close> after the increment.
  Nothing else of the state changes.
\<close>

theorem get_next_user_index_increments:
  "fst (get_next_user_index r) = seq_of (db r) + 1
   \<and> seq_of (db (snd (get_next_user_index r))) = fst (get_next_user_index r)
   \<and> counters (db (snd (get_next_user_index r)))
       = (counters (db r))(''user_index'' \<mapsto> incremented (db r))
   \<and> (counters (db r) ''user_index'' = None \<longrightarrow>
        fst (get_next_user_index r) = 1
        \<and> counters (db (snd (get_next_user_index r))) ''user_index'' = Some [''seq'' \<mapsto> 1])
   \<and> filter (\<lambda>c. c = FindOneAndUpdate) (new_calls (db r) (db (snd (get_next_user_index r))))
       = [FindOneAndUpdate]
   \<and> users (db (snd (get_next_user_index r))) = users (db r)
   \<and> indexes (db (snd (get_next_user_index r))) = indexes (db r)
   \<and> initialized (snd (get_next_user_index r)) = initialized r"
proof -
  have absent: "counters (db r) ''user_index'' = None \<Longrightarrow>
      seq_of (db r) = 0 \<and> incremented (db r) = [''seq'' \<mapsto> 1]"
    by (simp add: seq_of_def incremented_def)
  show ?thesis
    using absent
    by (simp add: get_next_user_index_value get_next_user_index_seq
        get_next_user_index_counters get_next_user_index_frame get_next_user_index_calls
        new_calls_def)
qed

theorem get_next_user_index_increments_witness:
  "counters (db (new_repository (empty_database :: unit database))) ''user_index'' = None
   \<and> fst (get_next_user_index (new_repository (empty_database :: unit database))) = 1
   \<and> counters (db (snd (get_next_user_index (new_repository (empty_database :: unit database)))))
        ''user_index'' = Some [''seq'' \<mapsto> 1]"
  using get_next_user_index_increments [of "new_repository (empty_database :: unit database)"]
  by (simp add: new_repository_def empty_database_def seq_of_def incremented_def)

section \<open>Creating users\<close>

lemma insert_one_indexed:
  assumes "uniq_id \<in> indexes d" and "uniq_user_index \<in> indexes d"
  shows "insert_one u d =
     (if user_id u \<in> set (ids (users d)) \<or> user_index u \<in> set (user_indexes (users d))
      then (Inl DuplicateKeyError, called [InsertOne (user_id u) (user_index u)] d)
      else (Inr (), appended u (called [InsertOne (user_id u) (user_index u)] d)))"
  using assms by (simp add: insert_one_def duplicate_key_def called_def appended_def Let_def)

lemma called_frame:
  "users (called cs d) = users d"
  "counters (called cs d) = counters d"
  "indexes (called cs d) = indexes d"
  "calls (called cs d) = calls d @ cs"
  "called cs (called cs' d) = called (cs' @ cs) d"
  by (simp_all add: called_def)

lemma appended_frame:
  "users (appended u d) = users d @ [\<lparr>oid = length (users d), doc = u\<rparr>]"
  "counters (appended u d) = counters d"
  "indexes (appended u d) = indexes d"
  "calls (appended u d) = calls d"
  "ids (users (appended u d)) = ids (users d) @ [user_id u]"
  "user_indexes (users (appended u d)) = user_indexes (users d) @ [user_index u]"
  by (simp_all add: appended_def ids_def user_indexes_def)

text \<open>
  What \<^verbatim>\<open>add_user\<close> does on a consistent state, by the keys already stored: \<open>n\<close> is
  the index drawn from the counter and \<open>r2\<close> the state after drawing it.
\<close>

lemma add_user_cases:
  assumes "consistent r"
  defines "n \<equiv> seq_of (db r) + 1"
    and "r2 \<equiv> snd (get_next_user_index (with_indexes r))"
  shows "add_user r payload id1 id2 =
     (if id1 \<notin> set (ids (users (db r))) \<and> n \<notin> set (user_indexes (users (db r)))
      then (Inr \<lparr>user_id = id1, user_index = n, profile = payload\<rparr>,
            r2\<lparr>db := appended \<lparr>user_id = id1, user_index = n, profile = payload\<rparr>
                        (called [InsertOne id1 n] (db r2))\<rparr>)
      else if id2 \<notin> set (ids (users (db r))) \<and> n \<notin> set (user_indexes (users (db r)))
      then (Inr \<lparr>user_id = id2, user_index = n, profile = payload\<rparr>,
            r2\<lparr>db := appended \<lparr>user_id = id2, user_index = n, profile = payload\<rparr>
                        (called [InsertOne id1 n, InsertOne id2 n] (db r2))\<rparr>)
      else (Inl DuplicateKeyError,
            r2\<lparr>db := called [InsertOne id1 n, InsertOne id2 n] (db r2)\<rparr>))"
proof -
  have init: "initialize r = (Inr (), with_indexes r)"
    using assms(1) by (simp add: consistent_def initialize_ok)
  have next_index: "get_next_user_index (with_indexes r) = (n, r2)"
    by (simp add: n_def r2_def prod_eq_iff get_next_user_index_value with_indexes_frame)
  have us: "users (db r2) = users (db r)"
    by (simp add: r2_def get_next_user_index_frame with_indexes_frame)
  have ix: "uniq_id \<in> indexes (db r2)" "uniq_user_index \<in> indexes (db r2)"
    using assms(1)
    by (simp_all add: r2_def get_next_user_index_frame with_indexes_present consistent_def)
  have first: "insert_one \<lparr>user_id = id1, user_index = n, profile = payload\<rparr> (db r2) =
     (if id1 \<in> set (ids (users (db r))) \<or> n \<in> set (user_indexes (users (db r)))
      then (Inl DuplicateKeyError, called [InsertOne id1 n] (db r2))
      else (Inr (), appended \<lparr>user_id = id1, user_index = n, profile = payload\<rparr>
                      (called [InsertOne id1 n] (db r2))))"
    using ix by (simp add: insert_one_indexed us)
  have second: "insert_one \<lparr>user_id = id2, user_index = n, profile = payload\<rparr>
        (called [InsertOne id1 n] (db r2)) =
     (if id2 \<in> set (ids (users (db r))) \<or> n \<in> set (user_indexes (users (db r)))
      then (Inl DuplicateKeyError, called [InsertOne id1 n, InsertOne id2 n] (db r2))
      else (Inr (), appended \<lparr>user_id = id2, user_index = n, profile = payload\<rparr>
                      (called [InsertOne id1 n, InsertOne id2 n] (db r2))))"
    using ix by (simp add: insert_one_indexed called_frame us)
  show ?thesis
    by (simp add: add_user_def init next_index first second Let_def)
qed

lemma seq_of_frame:
  "seq_of (called cs d) = seq_of d"
  "seq_of (appended u d) = seq_of d"
  by (simp_all add: seq_of_def called_def appended_def)

lemma drawn:
  assumes "consistent r"
  defines "r2 \<equiv> snd (get_next_user_index (with_indexes r))"
  shows "users (db r2) = users (db r)"
    and "seq_of (db r2) = seq_of (db r) + 1"
    and "initialized r2"
    and "uniq_id \<in> indexes (db r2)"
    and "uniq_user_index \<in> indexes (db r2)"
    and "calls (db r2) = calls (db r)
           @ (if initialized r then [] else [CreateIndex uniq_id, CreateIndex uniq_user_index])
           @ FindOneAndUpdate # (if seq_of (db r) + 1 = 1 then [UpdateOne] else [])"
  using assms(1)
  by (simp_all add: r2_def get_next_user_index_frame get_next_user_index_seq
      get_next_user_index_calls with_indexes_frame with_indexes_present with_indexes_calls
      consistent_def)

lemma add_user_seq:
  assumes "consistent r"
  shows "seq_of (db (snd (add_user r payload id1 id2))) = seq_of (db r) + 1"
  by (simp add: add_user_cases [OF assms] seq_of_frame drawn [OF assms])

lemma add_user_index:
  assumes "consistent r" and "fst (add_user r payload id1 id2) = Inr u"
  shows "user_index u = seq_of (db r) + 1"
  using assms(2) by (auto simp: add_user_cases [OF assms(1)] split: if_splits)

lemma add_user_consistent:
  assumes "consistent r"
  shows "consistent (snd (add_user r payload id1 id2))"
  using assms
  by (simp add: add_user_cases [OF assms] drawn [OF assms] consistent_def unique_keys_def
      indexes_ensured_def appended_frame called_frame ids_def user_indexes_def)

lemma consistent_empty: "consistent (new_repository empty_database)"
  by (simp add: consistent_def unique_keys_def indexes_ensured_def new_repository_def
      empty_database_def ids_def user_indexes_def)

lemma consistent_new: "consistent r \<Longrightarrow> consistent (new_repository (db r))"
  by (simp add: consistent_def indexes_ensured_def new_repository_def)

section \<open>Sequences of creations\<close>

lemma add_users_length: "length (fst (add_users r reqs)) = length reqs"
  by (induction reqs arbitrary: r) (auto simp: case_prod_beta)

lemma add_users_consistent: "consistent r \<Longrightarrow> consistent (snd (add_users r reqs))"
  by (induction reqs arbitrary: r) (auto simp: case_prod_beta add_user_consistent)

lemma add_users_seq:
  "consistent r \<Longrightarrow> seq_of (db (snd (add_users r reqs))) = seq_of (db r) + int (length reqs)"
  by (induction reqs arbitrary: r)
    (auto simp: case_prod_beta add_user_consistent add_user_seq)

lemma add_users_nth:
  "consistent r \<Longrightarrow> i < length reqs \<Longrightarrow> fst (add_users r reqs) ! i = Inr u
     \<Longrightarrow> user_index u = seq_of (db r) + 1 + int i"
proof (induction reqs arbitrary: r i)
  case Nil
  then show ?case by simp
next
  case (Cons req reqs)
  obtain payload id1 id2 where req: "req = (payload, id1, id2)"
    by (cases req) auto
  show ?case
  proof (cases i)
    case 0
    with Cons.prems req show ?thesis
      by (simp add: case_prod_beta add_user_index)
  next
    case (Suc j)
    with Cons.prems req
    have "user_index u = seq_of (db (snd (add_user r payload id1 id2))) + 1 + int j"
      by (intro Cons.IH) (simp_all add: case_prod_beta add_user_consistent)
    with Cons.prems(1) Suc show ?thesis
      by (simp add: add_user_seq)
  qed
qed

lemma created_length: "length (created outs) \<le> length outs"
  by (induction outs rule: created.induct) auto

lemma created_all:
  "length (created outs) = length outs \<Longrightarrow> outs = map Inr (created outs)"
proof (induction outs rule: created.induct)
  case 1
  then show ?case by simp
next
  case (2 e outs)
  with created_length [of outs] show ?case by simp
next
  case (3 u outs)
  then show ?case by simp
qed

lemma add_users_created_bounds:
  "consistent r \<Longrightarrow> u \<in> set (created (fst (add_users r reqs)))
     \<Longrightarrow> seq_of (db r) < user_index u \<and> user_index u \<le> seq_of (db r) + int (length reqs)"
proof (induction reqs arbitrary: r u)
  case Nil
  then show ?case by simp
next
  case (Cons req reqs)
  obtain payload id1 id2 where req: "req = (payload, id1, id2)"
    by (cases req) auto
  let ?r1 = "snd (add_user r payload id1 id2)"
  have later: "seq_of (db r) < user_index v \<and> user_index v \<le> seq_of (db r) + int (length (req # reqs))"
    if "v \<in> set (created (fst (add_users ?r1 reqs)))" for v
    using Cons.IH [of ?r1 v] that Cons.prems(1)
    by (simp add: add_user_consistent add_user_seq)
  show ?case
  proof (cases "fst (add_user r payload id1 id2)")
    case (Inl e)
    with Cons.prems(2) req later show ?thesis
      by (simp add: case_prod_beta)
  next
    case (Inr v)
    with Cons.prems(2) req have "u = v \<or> u \<in> set (created (fst (add_users ?r1 reqs)))"
      by (simp add: case_prod_beta)
    then show ?thesis
    proof
      assume "u = v"
      with Inr Cons.prems(1) show ?thesis
        by (simp add: add_user_index)
    next
      assume "u \<in> set (created (fst (add_users ?r1 reqs)))"
      then show ?thesis by (rule later)
    qed
  qed
qed

lemma add_users_created_sorted:
  "consistent r \<Longrightarrow> sorted_wrt (<) (map user_index (created (fst (add_users r reqs))))"
proof (induction reqs arbitrary: r)
  case Nil
  then show ?case by simp
next
  case (Cons req reqs)
  obtain payload id1 id2 where req: "req = (payload, id1, id2)"
    by (cases req) auto
  let ?r1 = "snd (add_user r payload id1 id2)"
  have r1: "consistent ?r1"
    using Cons.prems by (rule add_user_consistent)
  have rest: "sorted_wrt (<) (map user_index (created (fst (add_users ?r1 reqs))))"
    using r1 by (rule Cons.IH)
  show ?case
  proof (cases "fst (add_user r payload id1 id2)")
    case (Inl e)
    with req rest show ?thesis
      by (simp add: case_prod_beta)
  next
    case (Inr v)
    have "user_index v < user_index w" if "w \<in> set (created (fst (add_users ?r1 reqs)))" for w
      using add_users_created_bounds [OF r1 that] add_user_index [OF Cons.prems Inr]
      by (simp add: add_user_seq [OF Cons.prems])
    with Inr req rest show ?thesis
      by (simp add: case_prod_beta)
  qed
qed

text \<open>
  Creates that run one after the other, each to its end before the next starts: in a
  sequence of \<open>N\<close> such operations on a consistent state whose counter stands
  at \<open>k - 1\<close>, the \<open>i\<close>-th operation is assigned \<open>k + i\<close>: the counter advances by
  exactly \<open>N\<close>, a user that is returned carries the value of its own operation, no
  two returned users share a value, and when all \<open>N\<close> operations return a user their
  values are \<open>k, ..., k + N - 1\<close> in order. On an empty store the first create returns
  \<open>user_index = 1\<close> and the second one \<open>user_index = 2\<close>.
\<close>

theorem add_users_user_indexes:
  assumes "consistent r"
  shows "length (fst (add_users r reqs)) = length reqs
   \<and> seq_of (db (snd (add_users r reqs))) = seq_of (db r) + int (length reqs)
   \<and> (\<forall>i<length reqs. \<forall>u. fst (add_users r reqs) ! i = Inr u
         \<longrightarrow> user_index u = seq_of (db r) + 1 + int i)
   \<and> distinct (map user_index (created (fst (add_users r reqs))))
   \<and> (length (created (fst (add_users r reqs))) = length reqs \<longrightarrow>
        map user_index (created (fst (add_users r reqs)))
          = map (\<lambda>i. seq_of (db r) + 1 + int i) [0..<length reqs])
   \<and> fst (add_user (new_repository empty_database) p id1 id2)
        = Inr \<lparr>user_id = id1, user_index = 1, profile = p\<rparr>
   \<and> (\<forall>u. fst (add_user (snd (add_user (new_repository empty_database) p id1 id2)) q id3 id4)
              = Inr u \<longrightarrow> user_index u = 2)
   \<and> (id3 \<noteq> id1 \<longrightarrow>
        fst (add_user (snd (add_user (new_repository empty_database) p id1 id2)) q id3 id4)
          = Inr \<lparr>user_id = id3, user_index = 2, profile = q\<rparr>)"
proof -
  let ?outs = "fst (add_users r reqs)"
  let ?k = "seq_of (db r) + 1"
  let ?e = "new_repository empty_database :: 'b UserRepository"
  let ?r1 = "snd (add_user ?e p id1 id2)"
  have nth: "\<forall>i<length reqs. \<forall>u. ?outs ! i = Inr u \<longrightarrow> user_index u = ?k + int i"
    using assms add_users_nth by blast
  have dist: "distinct (map user_index (created ?outs))"
    using add_users_created_sorted [OF assms, of reqs] by (simp add: strict_sorted_iff)
  have dense: "map user_index (created ?outs) = map (\<lambda>i. ?k + int i) [0..<length reqs]"
    if all: "length (created ?outs) = length reqs"
  proof (rule nth_equalityI)
    show "length (map user_index (created ?outs)) = length (map (\<lambda>i. ?k + int i) [0..<length reqs])"
      using all by simp
  next
    fix i
    assume "i < length (map user_index (created ?outs))"
    then have i: "i < length reqs"
      using all by simp
    have "?outs = map Inr (created ?outs)"
      using all by (intro created_all) (simp add: add_users_length)
    then have "?outs ! i = Inr (created ?outs ! i)"
      using i all by (metis nth_map)
    with nth i have "user_index (created ?outs ! i) = ?k + int i"
      by blast
    with i all show "map user_index (created ?outs) ! i = map (\<lambda>i. ?k + int i) [0..<length reqs] ! i"
      by simp
  qed
  have e: "consistent ?e" "seq_of (db ?e) = 0" "users (db ?e) = []"
    by (simp_all add: consistent_empty) (simp_all add: new_repository_def empty_database_def seq_of_def)
  have first: "fst (add_user ?e p id1 id2) = Inr \<lparr>user_id = id1, user_index = 1, profile = p\<rparr>"
    by (simp add: add_user_cases [OF e(1)] e ids_def user_indexes_def)
  have r1: "consistent ?r1" "seq_of (db ?r1) = 1"
    using e by (simp_all add: add_user_consistent add_user_seq)
  have us: "ids (users (db ?r1)) = [id1]" "user_indexes (users (db ?r1)) = [1]"
    by (simp_all add: add_user_cases [OF e(1)] e drawn [OF e(1)] appended_frame called_frame
        ids_def user_indexes_def)
  have second: "\<forall>u. fst (add_user ?r1 q id3 id4) = Inr u \<longrightarrow> user_index u = 2"
    using add_user_index [OF r1(1)] r1(2) by fastforce
  have second': "id3 \<noteq> id1 \<longrightarrow>
      fst (add_user ?r1 q id3 id4) = Inr \<lparr>user_id = id3, user_index = 2, profile = q\<rparr>"
    by (simp add: add_user_cases [OF r1(1)] r1(2) us)
  show ?thesis
    using nth dist dense first second second'
    by (simp add: add_users_length add_users_seq [OF assms])
qed

text \<open>The definitions that evaluate the operations on a concrete state.\<close>

lemmas storage_defs =
  create_index_def index_holds_def duplicate_key_def find_one_and_update_def update_one_def
  insert_one_def find_one_def ids_def user_indexes_def empty_database_def

lemmas repository_defs =
  new_repository_def initialize_def get_next_user_index_def add_user_def get_user_by_id_def
  seq_of_def consistent_def unique_keys_def indexes_ensured_def Let_def

theorem add_users_user_indexes_witness:
  "consistent (new_repository (empty_database :: unit database))
   \<and> fst (add_users (new_repository empty_database) [((), ''a1'', ''b1''), ((), ''a1'', ''b2'')]) ! 1
        = Inr \<lparr>user_id = ''b2'', user_index = 2, profile = ()\<rparr>
   \<and> length (created (fst (add_users (new_repository empty_database)
        [((), ''a1'', ''b1''), ((), ''a1'', ''b2'')]))) = 2
   \<and> map user_index (created (fst (add_users (new_repository empty_database)
        [((), ''a1'', ''b1''), ((), ''a1'', ''b2'')]))) = [1, 2]
   \<and> ''c'' \<noteq> ''a''
   \<and> fst (add_user (snd (add_user (new_repository empty_database) () ''a'' ''b'')) () ''c'' ''d'')
        = Inr \<lparr>user_id = ''c'', user_index = 2, profile = ()\<rparr>"
  using add_users_user_indexes [of "new_repository (empty_database :: unit database)"
      "[((), ''a1'', ''b1''), ((), ''a1'', ''b2'')]" "()" "''a''" "''b''" "()" "''c''" "''d''"]
  by (simp add: storage_defs repository_defs)

section \<open>The retry\<close>

lemma new_calls_append: "calls d' = calls d @ cs \<Longrightarrow> new_calls d d' = cs"
  by (simp add: new_calls_def)

lemma add_user_calls:
  assumes "consistent r"
  shows "calls (db (snd (add_user r payload id1 id2))) = calls (db r)
     @ (if initialized r then [] else [CreateIndex uniq_id, CreateIndex uniq_user_index])
     @ FindOneAndUpdate # (if seq_of (db r) + 1 = 1 then [UpdateOne] else [])
     @ (if id1 \<notin> set (ids (users (db r)))
           \<and> seq_of (db r) + 1 \<notin> set (user_indexes (users (db r)))
        then [InsertOne id1 (seq_of (db r) + 1)]
        else [InsertOne id1 (seq_of (db r) + 1), InsertOne id2 (seq_of (db r) + 1)])"
  by (simp add: add_user_cases [OF assms] drawn [OF assms] appended_frame called_frame)

lemma add_user_users:
  assumes "consistent r"
  shows "users (db (snd (add_user r payload id1 id2))) =
     (case fst (add_user r payload id1 id2) of
        Inl e \<Rightarrow> users (db r)
      | Inr u \<Rightarrow> users (db r) @ [\<lparr>oid = length (users (db r)), doc = u\<rparr>])"
  by (simp add: add_user_cases [OF assms] drawn [OF assms] appended_frame called_frame)

text \<open>
  C3: when the \<open>id\<close> of the first insert is already stored, \<^verbatim>\<open>add_user\<close> draws one
  value from the counter, inserts once more with the regenerated \<open>id\<close> and the same
  \<open>user_index\<close>, and issues no third insert. If the second insert is accepted the user
  is returned with that \<open>user_index\<close>; otherwise the duplicate-key error is the outcome
  and no user is stored.
\<close>

theorem add_user_retries_once:
  assumes "consistent r" and "id1 \<in> set (ids (users (db r)))"
  shows "seq_of (db (snd (add_user r payload id1 id2))) = seq_of (db r) + 1
   \<and> filter (\<lambda>c. c = FindOneAndUpdate \<or> is_insert c)
        (new_calls (db r) (db (snd (add_user r payload id1 id2))))
       = [FindOneAndUpdate, InsertOne id1 (seq_of (db r) + 1), InsertOne id2 (seq_of (db r) + 1)]
   \<and> (if id2 \<notin> set (ids (users (db r)))
          \<and> seq_of (db r) + 1 \<notin> set (user_indexes (users (db r)))
       then fst (add_user r payload id1 id2)
              = Inr \<lparr>user_id = id2, user_index = seq_of (db r) + 1, profile = payload\<rparr>
            \<and> users (db (snd (add_user r payload id1 id2)))
              = users (db r) @ [\<lparr>oid = length (users (db r)),
                   doc = \<lparr>user_id = id2, user_index = seq_of (db r) + 1, profile = payload\<rparr>\<rparr>]
       else fst (add_user r payload id1 id2) = Inl DuplicateKeyError
            \<and> users (db (snd (add_user r payload id1 id2))) = users (db r))"
proof -
  have trace: "new_calls (db r) (db (snd (add_user r payload id1 id2))) =
      (if initialized r then [] else [CreateIndex uniq_id, CreateIndex uniq_user_index])
      @ FindOneAndUpdate # (if seq_of (db r) + 1 = 1 then [UpdateOne] else [])
      @ [InsertOne id1 (seq_of (db r) + 1), InsertOne id2 (seq_of (db r) + 1)]"
    using assms(2) by (intro new_calls_append) (simp add: add_user_calls [OF assms(1)])
  have outcome: "fst (add_user r payload id1 id2) =
      (if id2 \<notin> set (ids (users (db r)))
          \<and> seq_of (db r) + 1 \<notin> set (user_indexes (users (db r)))
       then Inr \<lparr>user_id = id2, user_index = seq_of (db r) + 1, profile = payload\<rparr>
       else Inl DuplicateKeyError)"
    using assms(2) by (simp add: add_user_cases [OF assms(1)])
  show ?thesis
    by (simp add: add_user_seq [OF assms(1)] trace add_user_users [OF assms(1)] outcome)
qed

theorem add_user_retries_once_witness:
  "consistent (snd (add_user (new_repository (empty_database :: unit database)) () ''a'' ''b''))
   \<and> ''a'' \<in> set (ids (users (db (snd (add_user (new_repository empty_database) () ''a'' ''b'')))))
   \<and> fst (add_user (snd (add_user (new_repository empty_database) () ''a'' ''b'')) () ''a'' ''c'')
       = Inr \<lparr>user_id = ''c'', user_index = 2, profile = ()\<rparr>
   \<and> seq_of (db (snd (add_user (snd (add_user (new_repository empty_database) () ''a'' ''b''))
        () ''a'' ''c''))) = 2"
  using add_user_retries_once
    [of "snd (add_user (new_repository (empty_database :: unit database)) () ''a'' ''b'')"
        "''a''" "()" "''c''"]
  by (simp add: storage_defs repository_defs)

text \<open>
  C9: when the first insert is refused because the \<open>user_index\<close> drawn from the counter
  is already stored, while the \<open>id\<close> is new, the second insert carries the same
  \<open>user_index\<close> with only the \<open>id\<close> regenerated, so it is refused as well:
  \<^verbatim>\<open>add_user\<close> ends in the duplicate-key error whatever the regenerated \<open>id\<close> is, and
  stores nothing.
\<close>

theorem add_user_index_collision_fails:
  assumes "consistent r"
    and "id1 \<notin> set (ids (users (db r)))"
    and "seq_of (db r) + 1 \<in> set (user_indexes (users (db r)))"
  shows "fst (add_user r payload id1 id2) = Inl DuplicateKeyError
   \<and> users (db (snd (add_user r payload id1 id2))) = users (db r)
   \<and> filter is_insert (new_calls (db r) (db (snd (add_user r payload id1 id2))))
       = [InsertOne id1 (seq_of (db r) + 1), InsertOne id2 (seq_of (db r) + 1)]"
proof -
  have trace: "new_calls (db r) (db (snd (add_user r payload id1 id2))) =
      (if initialized r then [] else [CreateIndex uniq_id, CreateIndex uniq_user_index])
      @ FindOneAndUpdate # (if seq_of (db r) + 1 = 1 then [UpdateOne] else [])
      @ [InsertOne id1 (seq_of (db r) + 1), InsertOne id2 (seq_of (db r) + 1)]"
    using assms(3) by (intro new_calls_append) (simp add: add_user_calls [OF assms(1)])
  have outcome: "fst (add_user r payload id1 id2) = Inl DuplicateKeyError"
    using assms(3) by (simp add: add_user_cases [OF assms(1)])
  show ?thesis
    by (simp add: trace add_user_users [OF assms(1)] outcome)
qed

theorem add_user_index_collision_fails_witness:
  "consistent (new_repository \<lparr>users = [\<lparr>oid = 0,
       doc = \<lparr>user_id = ''a'', user_index = 1, profile = ()\<rparr>\<rparr>],
       counters = Map.empty, indexes = {}, calls = []\<rparr>)
   \<and> ''b'' \<notin> set (ids [\<lparr>oid = 0, doc = \<lparr>user_id = ''a'', user_index = 1, profile = ()\<rparr>\<rparr>])
   \<and> seq_of \<lparr>users = [\<lparr>oid = 0,
       doc = \<lparr>user_id = ''a'', user_index = 1, profile = ()\<rparr>\<rparr>],
       counters = Map.empty, indexes = {}, calls = []\<rparr> + 1
       \<in> set (user_indexes [\<lparr>oid = 0,
            doc = \<lparr>user_id = ''a'', user_index = 1, profile = ()\<rparr>\<rparr>])
   \<and> fst (add_user (new_repository \<lparr>users = [\<lparr>oid = 0,
       doc = \<lparr>user_id = ''a'', user_index = 1, profile = ()\<rparr>\<rparr>],
       counters = Map.empty, indexes = {}, calls = []\<rparr>) () ''b'' ''c'') = Inl DuplicateKeyError"
  using add_user_index_collision_fails
    [of "new_repository \<lparr>users = [\<lparr>oid = 0,
       doc = \<lparr>user_id = ''a'', user_index = 1, profile = ()\<rparr>\<rparr>],
       counters = Map.empty, indexes = {}, calls = []\<rparr>" "''b''" "()" "''c''"]
  by (simp add: storage_defs repository_defs)

section \<open>Looking users up\<close>

lemma find_absent: "uid \<notin> set (ids ds) \<Longrightarrow> find (\<lambda>s. user_id (doc s) = uid) ds = None"
  by (auto simp: find_None_iff ids_def)

lemma find_last:
  "user_id (doc s) \<notin> set (ids ds)
     \<Longrightarrow> find (\<lambda>t. user_id (doc t) = user_id (doc s)) (ds @ [s]) = Some s"
  by (induction ds) (auto simp: ids_def)

lemma get_user_by_id_ok:
  assumes "unique_keys (db r)"
  shows "get_user_by_id r uid =
     (Inr (map_option doc (find (\<lambda>s. user_id (doc s) = uid) (users (db r)))),
      (with_indexes r)\<lparr>db := called [FindOne] (db (with_indexes r))\<rparr>)"
  by (cases "find (\<lambda>s. user_id (doc s) = uid) (users (db r))")
    (simp_all add: get_user_by_id_def initialize_ok [OF assms] find_one_def with_indexes_frame
      called_def)

lemma get_user_ok:
  assumes "unique_keys d"
  shows "fst (get_user d uid) =
     (case find (\<lambda>s. user_id (doc s) = uid) (users d) of
        None \<Rightarrow> Inl (HTTPException 404 ''User not found'')
      | Some s \<Rightarrow> Inr (doc s))"
proof -
  have "unique_keys (db (new_repository d))" "users (db (new_repository d)) = users d"
    using assms by (simp_all add: new_repository_def)
  then show ?thesis
    by (simp add: get_user_def get_user_by_id_ok split: option.splits)
qed

lemma get_user_by_id_consistent:
  assumes "consistent r"
  shows "consistent (snd (get_user_by_id r uid))"
proof -
  have "unique_keys (db r)"
    using assms by (simp add: consistent_def)
  then show ?thesis
    using assms
    by (simp add: get_user_by_id_ok consistent_def unique_keys_def indexes_ensured_def
        called_frame with_indexes_frame with_indexes_present)
qed

text \<open>
  C4: a user that \<^verbatim>\<open>add_user\<close> has returned is found under its \<open>id\<close> right after,
  and the record found is the record returned, both by the repository and through the
  router.
\<close>

theorem get_user_by_id_after_add_user:
  assumes "consistent r" and "add_user r payload id1 id2 = (Inr u, r')"
  shows "fst (get_user_by_id r' (user_id u)) = Inr (Some u)
   \<and> fst (get_user (db r') (user_id u)) = Inr u"
proof -
  have r': "consistent r'"
    using add_user_consistent [OF assms(1), of payload id1 id2] assms(2) by simp
  then have keys: "unique_keys (db r')"
    by (simp add: consistent_def)
  have fresh: "user_id u \<notin> set (ids (users (db r)))"
    using assms(2) by (auto simp: add_user_cases [OF assms(1)] split: if_splits)
  have "users (db r') = users (db r) @ [\<lparr>oid = length (users (db r)), doc = u\<rparr>]"
    using add_user_users [OF assms(1), of payload id1 id2] assms(2) by simp
  then have found: "find (\<lambda>s. user_id (doc s) = user_id u) (users (db r'))
      = Some \<lparr>oid = length (users (db r)), doc = u\<rparr>"
    using find_last [of "\<lparr>oid = length (users (db r)), doc = u\<rparr>" "users (db r)"] fresh
    by simp
  show ?thesis
    by (simp add: get_user_by_id_ok [OF keys] get_user_ok [OF keys] found)
qed

theorem get_user_by_id_after_add_user_witness:
  "consistent (new_repository (empty_database :: unit database))
   \<and> fst (add_user (new_repository (empty_database :: unit database)) () ''a'' ''b'')
       = Inr \<lparr>user_id = ''a'', user_index = 1, profile = ()\<rparr>
   \<and> fst (get_user_by_id (snd (add_user (new_repository (empty_database :: unit database))
        () ''a'' ''b'')) ''a'') = Inr (Some \<lparr>user_id = ''a'', user_index = 1, profile = ()\<rparr>)
   \<and> fst (get_user (db (snd (add_user (new_repository (empty_database :: unit database))
        () ''a'' ''b''))) ''a'') = Inr \<lparr>user_id = ''a'', user_index = 1, profile = ()\<rparr>"
  using get_user_by_id_after_add_user
    [of "new_repository (empty_database :: unit database)" "()" "''a''" "''b''"
        "\<lparr>user_id = ''a'', user_index = 1, profile = ()\<rparr>"
        "snd (add_user (new_repository (empty_database :: unit database)) () ''a'' ''b'')"]
  by (simp add: storage_defs repository_defs prod_eq_iff)

text \<open>
  C6: on a store with unique keys, an \<open>id\<close> that no stored user has makes
  \<^verbatim>\<open>get_user_by_id\<close> return \<open>None\<close>, not an error, and the router answers 404.
  Whatever the \<open>id\<close>, the record returned is the document part of the first stored
  user with that \<open>id\<close>, without the surrogate \<open>_id\<close>.
\<close>

theorem get_user_by_id_not_found:
  assumes "unique_keys (db r)"
  shows "(uid \<notin> set (ids (users (db r))) \<longrightarrow>
        fst (get_user_by_id r uid) = Inr None
        \<and> fst (get_user (db r) uid) = Inl (HTTPException 404 ''User not found''))
   \<and> fst (get_user_by_id r uid')
       = Inr (map_option doc (find (\<lambda>s. user_id (doc s) = uid') (users (db r))))"
  by (simp add: get_user_by_id_ok [OF assms] get_user_ok [OF assms] find_absent)

theorem get_user_by_id_not_found_witness:
  "unique_keys (db (snd (add_user (new_repository (empty_database :: unit database)) () ''a'' ''b'')))
   \<and> ''does-not-exist'' \<notin> set (ids (users (db (snd (add_user
        (new_repository (empty_database :: unit database)) () ''a'' ''b'')))))
   \<and> fst (get_user_by_id (snd (add_user (new_repository (empty_database :: unit database))
        () ''a'' ''b'')) ''does-not-exist'') = Inr None
   \<and> fst (get_user (db (snd (add_user (new_repository (empty_database :: unit database))
        () ''a'' ''b''))) ''does-not-exist'') = Inl (HTTPException 404 ''User not found'')"
  using get_user_by_id_not_found
    [of "snd (add_user (new_repository (empty_database :: unit database)) () ''a'' ''b'')"
        "''does-not-exist''" "''a''"]
  by (simp add: storage_defs repository_defs)

section \<open>What a lookup leaves unchanged\<close>

lemma initialize_calls:
  "list_all is_create_index (new_calls (db r) (db (snd (initialize r))))"
  by (simp add: initialize_def create_index_def new_calls_def Let_def)

lemma initialize_indexes:
  "indexes (db r) \<subseteq> indexes (db (snd (initialize r)))"
  "indexes (db (snd (initialize r))) \<subseteq> insert uniq_id (insert uniq_user_index (indexes (db r)))"
  by (auto simp: initialize_def create_index_def Let_def)

lemma get_user_by_id_unfold:
  "snd (get_user_by_id r uid) =
     (case fst (initialize r) of
        Inl e \<Rightarrow> snd (initialize r)
      | Inr x \<Rightarrow> (snd (initialize r))\<lparr>db := called [FindOne] (db (snd (initialize r)))\<rparr>)"
  by (cases "initialize r")
    (auto simp: get_user_by_id_def find_one_def called_def split: sum.splits option.splits)

lemma get_user_by_id_frame:
  "users (db (snd (get_user_by_id r uid))) = users (db r)"
  "counters (db (snd (get_user_by_id r uid))) = counters (db r)"
  by (simp_all add: get_user_by_id_unfold initialize_frame called_frame split: sum.splits)

text \<open>
  C10: \<^verbatim>\<open>get_user_by_id\<close> leaves the documents of \<open>users\<close> and of \<open>counters\<close>
  as they were, whatever the \<open>id\<close> and the state and whether it returns or raises, and
  so does the router's \<^verbatim>\<open>get_user\<close>. The calls it issues are index creations and the
  one read; the set of indexes can only gain the two unique indexes.
\<close>

theorem get_user_by_id_reads_only:
  "users (db (snd (get_user_by_id r uid))) = users (db r)
   \<and> counters (db (snd (get_user_by_id r uid))) = counters (db r)
   \<and> users (snd (get_user d uid)) = users d
   \<and> counters (snd (get_user d uid)) = counters d
   \<and> list_all (\<lambda>c. is_create_index c \<or> c = FindOne)
        (new_calls (db r) (db (snd (get_user_by_id r uid))))
   \<and> indexes (db r) \<subseteq> indexes (db (snd (get_user_by_id r uid)))
   \<and> indexes (db (snd (get_user_by_id r uid)))
        \<subseteq> insert uniq_id (insert uniq_user_index (indexes (db r)))"
proof -
  note repo = get_user_by_id_frame
  have router: "snd (get_user d uid) = db (snd (get_user_by_id (new_repository d) uid))"
    by (simp add: get_user_def case_prod_beta split: sum.splits option.splits)
  have trace: "list_all (\<lambda>c. is_create_index c \<or> c = FindOne)
      (new_calls (db r) (db (snd (get_user_by_id r uid))))"
    by (simp add: initialize_def create_index_def get_user_by_id_def find_one_def new_calls_def
        Let_def split: option.splits)
  have ix: "indexes (db (snd (get_user_by_id r uid))) = indexes (db (snd (initialize r)))"
    by (simp add: get_user_by_id_unfold called_frame split: sum.splits)
  have through: "users (snd (get_user d uid)) = users d
      \<and> counters (snd (get_user d uid)) = counters d"
    by (simp add: router repo new_repository_def)
  show ?thesis
    using initialize_indexes [of r] through
    by (simp add: repo trace ix)
qed

section \<open>Uniqueness of the identifiers\<close>

lemma add_user_initialized:
  assumes "consistent r"
  shows "initialized (snd (add_user r payload id1 id2))"
  by (simp add: add_user_cases [OF assms] drawn [OF assms])

lemma add_users_initialized:
  "consistent r \<Longrightarrow> initialized r \<or> reqs \<noteq> [] \<Longrightarrow> initialized (snd (add_users r reqs))"
  by (induction reqs arbitrary: r)
    (auto simp: case_prod_beta add_user_consistent add_user_initialized)

lemma insert_one_refused:
  "uniq_id \<in> indexes d \<Longrightarrow> user_id u \<in> set (ids (users d))
     \<Longrightarrow> fst (insert_one u d) = Inl DuplicateKeyError"
  by (simp add: insert_one_def duplicate_key_def Let_def)

lemma add_user_unindexed:
  assumes "initialized r" and "indexes (db r) = {}"
  shows "fst (add_user r payload id1 id2)
     = Inr \<lparr>user_id = id1, user_index = seq_of (db r) + 1, profile = payload\<rparr>"
proof -
  have "indexes (db (snd (get_next_user_index r))) = {}"
    using assms(2) by (simp add: get_next_user_index_frame)
  then have "insert_one u (db (snd (get_next_user_index r)))
      = (Inr (), appended u (called [InsertOne (user_id u) (user_index u)]
           (db (snd (get_next_user_index r)))))" for u :: "'a user"
    by (simp add: insert_one_def appended_def called_def Let_def)
  then show ?thesis
    using assms(1) get_next_user_index_value [of r]
    by (simp add: add_user_def initialize_set case_prod_beta Let_def)
qed

text \<open>
  C5: from a consistent state, and so from the empty store, no sequence of
  \<^verbatim>\<open>add_user\<close> operations leaves two stored users with the same \<open>id\<close>. The guard is
  the unique index, which is in place after the first operation and makes the storage
  refuse a stored \<open>id\<close>; \<^verbatim>\<open>add_user\<close> itself does not look at the stored \<open>id\<close>s,
  and on an instance whose flag is set over a database without indexes it stores
  whatever \<open>id\<close> it is given.
\<close>

theorem add_users_ids_distinct:
  assumes "consistent r"
  shows "distinct (ids (users (db (snd (add_users r reqs)))))
   \<and> distinct (ids (users (db (snd (add_users (new_repository empty_database) reqs)))))
   \<and> (reqs \<noteq> [] \<longrightarrow> uniq_id \<in> indexes (db (snd (add_users r reqs))))
   \<and> (uniq_id \<in> indexes d \<and> user_id u \<in> set (ids (users d))
        \<longrightarrow> fst (insert_one u d) = Inl DuplicateKeyError)
   \<and> (initialized q \<and> indexes (db q) = {}
        \<longrightarrow> fst (add_user q payload id1 id2)
              = Inr \<lparr>user_id = id1, user_index = seq_of (db q) + 1, profile = payload\<rparr>)"
proof -
  have keys: "distinct (ids (users (db (snd (add_users q reqs)))))"
    if "consistent q" for q :: "'a UserRepository"
    using add_users_consistent [OF that, of reqs] by (simp add: consistent_def unique_keys_def)
  have "uniq_id \<in> indexes (db (snd (add_users r reqs)))" if "reqs \<noteq> []"
    using add_users_consistent [OF assms, of reqs] add_users_initialized [OF assms, of reqs] that
    by (simp add: consistent_def indexes_ensured_def)
  then show ?thesis
    using keys [OF assms] keys [OF consistent_empty]
    by (simp add: insert_one_refused add_user_unindexed)
qed

theorem add_users_ids_distinct_witness:
  "consistent (new_repository (empty_database :: unit database))
   \<and> ids (users (db (snd (add_users (new_repository empty_database)
        [((), ''a'', ''b''), ((), ''a'', ''c''), ((), ''a'', ''c'')])))) = [''a'', ''c'']
   \<and> uniq_id \<in> indexes (db (snd (add_users (new_repository empty_database)
        [((), ''a'', ''b''), ((), ''a'', ''c''), ((), ''a'', ''c'')])))
   \<and> uniq_id \<in> indexes (db (snd (add_user (new_repository (empty_database :: unit database))
        () ''a'' ''b'')))
   \<and> ''a'' \<in> set (ids (users (db (snd (add_user
        (new_repository (empty_database :: unit database)) () ''a'' ''b'')))))
   \<and> fst (insert_one \<lparr>user_id = ''a'', user_index = 7, profile = ()\<rparr>
        (db (snd (add_user (new_repository empty_database) () ''a'' ''b''))))
       = Inl DuplicateKeyError
   \<and> fst (add_user \<lparr>db = \<lparr>users = [\<lparr>oid = 0,
          doc = \<lparr>user_id = ''a'', user_index = 1, profile = ()\<rparr>\<rparr>],
          counters = [''user_index'' \<mapsto> [''seq'' \<mapsto> 1]], indexes = {}, calls = []\<rparr>,
        initialized = True\<rparr> () ''a'' ''b'')
       = Inr \<lparr>user_id = ''a'', user_index = 2, profile = ()\<rparr>"
  using add_users_ids_distinct
    [of "new_repository (empty_database :: unit database)"
        "[((), ''a'', ''b''), ((), ''a'', ''c''), ((), ''a'', ''c'')]"
        "db (snd (add_user (new_repository empty_database) () ''a'' ''b''))"
        "\<lparr>user_id = ''a'', user_index = 7, profile = ()\<rparr>"
        "\<lparr>db = \<lparr>users = [\<lparr>oid = 0,
          doc = \<lparr>user_id = ''a'', user_index = 1, profile = ()\<rparr>\<rparr>],
          counters = [''user_index'' \<mapsto> [''seq'' \<mapsto> 1]], indexes = {}, calls = []\<rparr>,
        initialized = True\<rparr>" "()" "''a''" "''b''"]
  by (simp add: storage_defs repository_defs)

section \<open>Repeated initialization\<close>

lemma with_indexes_idem: "with_indexes (with_indexes r) = with_indexes r"
  by (simp add: with_indexes_def)

lemma with_indexes_set: "initialized (with_indexes r)"
  by (simp add: with_indexes_def)

lemma initialize_times_set:
  "initialized r \<Longrightarrow> initialize_times n r = (Inr (), r)"
  by (induction n) (simp_all add: initialize_set)

lemma initialize_times_ok:
  assumes "unique_keys (db r)"
  shows "initialize_times (Suc n) r = (Inr (), with_indexes r)"
  by (simp add: initialize_ok [OF assms] initialize_times_set with_indexes_set)

text \<open>
  C7: on a store with unique keys, \<^verbatim>\<open>_initialize\<close> called any number of times on one
  instance never fails; the first call leaves the state that every later call returns
  unchanged, and all the calls together issue each of the two index creations at most
  once (not at all on an instance whose flag is already set).
\<close>

theorem initialize_idempotent:
  assumes "unique_keys (db r)"
  shows "fst (initialize_times n r) = Inr ()
   \<and> snd (initialize_times (Suc n) r) = snd (initialize r)
   \<and> initialize (snd (initialize r)) = (Inr (), snd (initialize r))
   \<and> length (filter (\<lambda>c. c = CreateIndex uniq_id)
        (new_calls (db r) (db (snd (initialize_times n r))))) \<le> 1
   \<and> length (filter (\<lambda>c. c = CreateIndex uniq_user_index)
        (new_calls (db r) (db (snd (initialize_times n r))))) \<le> 1
   \<and> (initialized r \<longrightarrow> new_calls (db r) (db (snd (initialize_times n r))) = [])"
proof (cases n)
  case 0
  then show ?thesis
    by (simp add: initialize_ok [OF assms] initialize_set with_indexes_set new_calls_def)
next
  case (Suc m)
  have "new_calls (db r) (db (with_indexes r)) =
      (if initialized r then [] else [CreateIndex uniq_id, CreateIndex uniq_user_index])"
    by (intro new_calls_append) (simp add: with_indexes_calls)
  with Suc show ?thesis
    by (simp add: initialize_ok [OF assms] initialize_set initialize_times_set
        with_indexes_set)
qed

theorem initialize_idempotent_witness:
  "unique_keys (db (new_repository (empty_database :: unit database)))
   \<and> initialize_times 3 (new_repository (empty_database :: unit database))
       = (Inr (), \<lparr>db = \<lparr>users = [], counters = Map.empty,
            indexes = {uniq_id, uniq_user_index},
            calls = [CreateIndex uniq_id, CreateIndex uniq_user_index]\<rparr>, initialized = True\<rparr>)
   \<and> initialized (snd (initialize (new_repository (empty_database :: unit database))))
   \<and> new_calls (db (snd (initialize (new_repository (empty_database :: unit database)))))
        (db (snd (initialize_times 3
           (snd (initialize (new_repository (empty_database :: unit database))))))) = []"
  using initialize_idempotent [of "new_repository (empty_database :: unit database)" 3]
    initialize_idempotent
      [of "snd (initialize (new_repository (empty_database :: unit database)))" 3]
  by (simp add: storage_defs repository_defs new_calls_def eval_nat_numeral insert_commute)

section \<open>The corrective write\<close>

text \<open>
  C8: the write that \<^verbatim>\<open>_get_next_user_index\<close> issues after a returned value of 1
  changes nothing: with it and without it the value returned is the same and so are the
  counters, the users, the indexes and the flag of the instance. The two differ only in
  the calls issued, by that one write, issued exactly when the value is 1.
\<close>

theorem corrective_write_redundant:
  "fst (get_next_user_index r) = fst (get_next_user_index_plain r)
   \<and> counters (db (snd (get_next_user_index r)))
       = counters (db (snd (get_next_user_index_plain r)))
   \<and> users (db (snd (get_next_user_index r))) = users (db (snd (get_next_user_index_plain r)))
   \<and> indexes (db (snd (get_next_user_index r)))
       = indexes (db (snd (get_next_user_index_plain r)))
   \<and> initialized (snd (get_next_user_index r)) = initialized (snd (get_next_user_index_plain r))
   \<and> calls (db (snd (get_next_user_index r)))
       = calls (db (snd (get_next_user_index_plain r)))
         @ (if fst (get_next_user_index_plain r) = 1 then [UpdateOne] else [])"
  by (auto simp: get_next_user_index_def get_next_user_index_plain_def find_one_and_update_def
      update_one_def Let_def split: option.splits)

section \<open>Interleaved requests\<close>

text \<open>
  The results above are about operations that run one after the other. The two storage
  calls of \<^verbatim>\<open>_get_next_user_index\<close> are separate awaits, and between them another
  request can draw from the counter. Then the write is no longer redundant: after a
  first request has drawn 1 and a second one 2, the write of the first request puts the
  counter back to 1, and a third request draws 2 again.
\<close>

lemma corrective_write_interleaved:
  "fst (get_next_user_index_plain (new_repository (empty_database :: unit database))) = 1
   \<and> fst (get_next_user_index
        (snd (get_next_user_index_plain (new_repository (empty_database :: unit database))))) = 2
   \<and> fst (get_next_user_index (new_repository
        (update_one ''user_index'' ''seq'' 1
          (db (snd (get_next_user_index
            (snd (get_next_user_index_plain
              (new_repository (empty_database :: unit database)))))))))) = 2"
  by (simp add: get_next_user_index_def get_next_user_index_plain_def find_one_and_update_def
      update_one_def new_repository_def empty_database_def Let_def)

text \<open>The parts between the awaits, put together again, are the operations themselves.\<close>

lemma get_next_user_index_awaits:
  "get_next_user_index r =
     (let (seq, r1) = increment_user_index r in correct_user_index seq r1)"
  by (simp add: get_next_user_index_def increment_user_index_def correct_user_index_def
      find_one_and_update_def Let_def)

lemma add_user_awaits:
  "add_user r payload id1 id2 =
     (case initialize r of
        (Inl e, r1) \<Rightarrow> (Inl e, r1)
      | (Inr _, r1) \<Rightarrow>
          (let (seq, r2) = increment_user_index r1;
               (n, r3) = correct_user_index seq r2
           in insert_user r3 payload id1 id2 n))"
  by (simp add: add_user_def insert_user_def get_next_user_index_awaits case_prod_beta Let_def
      split: prod.splits sum.splits)

lemma resume_same: "resume r (db r) = r"
  by (simp add: resume_def)

text \<open>
  C1: the assigned values are not always \<open>k, ..., k + N - 1\<close> without duplicates. On an
  empty store, with the first of three creates suspended between its find-and-increment
  and its corrective write while the second runs, the first is assigned 1 and the second
  2, the corrective write puts the counter back to 1, and the third is assigned 2 again:
  both its inserts carry \<open>user_index = 2\<close>, both are refused by the unique index, and
  the request ends in the duplicate-key error. The counter stands at 2 after three
  creates and only two users are stored. The same three creates run one after the other
  are assigned 1, 2 and 3.
\<close>

theorem interleaved_creates_repeat_user_index:
  "fst (interleaved_creates (empty_database :: unit database)
          ((), ''a'', ''a2'') ((), ''b'', ''b2'') ((), ''c'', ''c2''))
     = (Inr \<lparr>user_id = ''a'', user_index = 1, profile = ()\<rparr>,
        Inr \<lparr>user_id = ''b'', user_index = 2, profile = ()\<rparr>,
        Inl DuplicateKeyError)
   \<and> filter is_insert (calls (snd (interleaved_creates (empty_database :: unit database)
          ((), ''a'', ''a2'') ((), ''b'', ''b2'') ((), ''c'', ''c2''))))
     = [InsertOne ''b'' 2, InsertOne ''a'' 1, InsertOne ''c'' 2, InsertOne ''c2'' 2]
   \<and> seq_of (snd (interleaved_creates (empty_database :: unit database)
          ((), ''a'', ''a2'') ((), ''b'', ''b2'') ((), ''c'', ''c2''))) = 2
   \<and> user_indexes (users (snd (interleaved_creates (empty_database :: unit database)
          ((), ''a'', ''a2'') ((), ''b'', ''b2'') ((), ''c'', ''c2'')))) = [2, 1]
   \<and> fst (add_users (new_repository (empty_database :: unit database))
          [((), ''a'', ''a2''), ((), ''b'', ''b2''), ((), ''c'', ''c2'')])
     = [Inr \<lparr>user_id = ''a'', user_index = 1, profile = ()\<rparr>,
        Inr \<lparr>user_id = ''b'', user_index = 2, profile = ()\<rparr>,
        Inr \<lparr>user_id = ''c'', user_index = 3, profile = ()\<rparr>]"
  by (simp add: storage_defs repository_defs increment_user_index_def correct_user_index_def
      insert_user_def resume_def)

end
